theory Spec2Isabelle
  imports Main "HOL-Library.Sublist" "HOL-Library.Multiset"
begin

section \<open>Values decoded from the listing\<close>

text \<open>
  The scraper reads what \<^verbatim>\<open>json.loads\<close> returns: nested Python values. They are kept
  as a datatype. An object is the list of its items in insertion order (the order matters
  to \<^verbatim>\<open>list(media_metadata.values())[0]\<close>); a key is looked up with \<open>map_of\<close>.
  Numbers are integers: the only float of a listing entry, \<^verbatim>\<open>created_utc\<close>, is copied
  and never inspected. Characters are HOL characters, and \<^verbatim>\<open>lower()\<close> acts on the
  letters A to Z.
\<close>

datatype json =
    JNull
  | JBool bool
  | JInt int
  | JStr string
  | JList "json list"
  | JObj "(string \<times> json) list"

text \<open>The exceptions the code can raise on a value of the wrong shape.\<close>

datatype error =
    AttributeError
  | TypeError
  | KeyError
  | IndexError
  | ValueError
  | Untyped

definition bindE :: "error + 'a \<Rightarrow> ('a \<Rightarrow> error + 'b) \<Rightarrow> error + 'b" where
  "bindE m f = (case m of Inl e \<Rightarrow> Inl e | Inr x \<Rightarrow> f x)"

text \<open>Python's truth value of a decoded value (\<^verbatim>\<open>if x:\<close>, \<^verbatim>\<open>not x\<close>).\<close>

fun truthy :: "json \<Rightarrow> bool" where
  "truthy JNull = False"
| "truthy (JBool b) = b"
| "truthy (JInt i) = (i \<noteq> 0)"
| "truthy (JStr s) = (s \<noteq> [])"
| "truthy (JList xs) = (xs \<noteq> [])"
| "truthy (JObj kvs) = (kvs \<noteq> [])"

text \<open>\<^verbatim>\<open>d.get(k, default)\<close>: only a dict has the method.\<close>

fun py_get :: "json \<Rightarrow> string \<Rightarrow> json \<Rightarrow> error + json" where
  "py_get (JObj kvs) k d = Inr (case map_of kvs k of None \<Rightarrow> d | Some v \<Rightarrow> v)"
| "py_get _ k d = Inl AttributeError"

text \<open>\<^verbatim>\<open>needle in x\<close> for a string needle: substring of a string, element of a list,
  key of a dict; the other values are not containers.\<close>

fun py_in :: "string \<Rightarrow> json \<Rightarrow> error + bool" where
  "py_in s (JStr t) = Inr (sublist s t)"
| "py_in s (JList xs) = Inr (JStr s \<in> set xs)"
| "py_in s (JObj kvs) = Inr (s \<in> fst ` set kvs)"
| "py_in s _ = Inl TypeError"

text \<open>\<^verbatim>\<open>x[0]\<close> on a value that is known to be truthy.\<close>

fun py_first :: "json \<Rightarrow> error + json" where
  "py_first (JList (x # xs)) = Inr x"
| "py_first (JList []) = Inl IndexError"
| "py_first (JStr (c # cs)) = Inr (JStr [c])"
| "py_first (JStr []) = Inl IndexError"
| "py_first (JObj kvs) = Inl KeyError"
| "py_first _ = Inl TypeError"

text \<open>\<^verbatim>\<open>x['s']\<close> after \<^verbatim>\<open>'s' in x\<close> has succeeded.\<close>

fun py_item :: "json \<Rightarrow> string \<Rightarrow> error + json" where
  "py_item (JObj kvs) k = (case map_of kvs k of None \<Rightarrow> Inl KeyError | Some v \<Rightarrow> Inr v)"
| "py_item _ k = Inl TypeError"

text \<open>\<^verbatim>\<open>for child in children\<close>: the elements of a list, the characters of a string,
  the keys of a dict.\<close>

fun py_iter :: "json \<Rightarrow> error + json list" where
  "py_iter (JList xs) = Inr xs"
| "py_iter (JStr s) = Inr (map (\<lambda>c. JStr [c]) s)"
| "py_iter (JObj kvs) = Inr (map (\<lambda>kv. JStr (fst kv)) kvs)"
| "py_iter _ = Inl TypeError"

text \<open>\<^verbatim>\<open>x < m\<close> against an integer: \<^verbatim>\<open>bool\<close> is a subclass of \<^verbatim>\<open>int\<close>.\<close>

fun py_lt :: "json \<Rightarrow> int \<Rightarrow> error + bool" where
  "py_lt (JInt i) m = Inr (i < m)"
| "py_lt (JBool b) m = Inr ((if b then 1 else 0) < m)"
| "py_lt _ m = Inl TypeError"

section \<open>Strings\<close>

definition lower_char :: "char \<Rightarrow> char" where
  "lower_char c =
     (let n = (of_char c :: nat) in if 65 \<le> n \<and> n \<le> 90 then char_of (n + 32) else c)"

definition lower :: "string \<Rightarrow> string" where
  "lower s = map lower_char s"

definition endswith :: "string \<Rightarrow> string \<Rightarrow> bool" where
  "endswith s e = suffix e s"

definition startswith :: "string \<Rightarrow> string \<Rightarrow> bool" where
  "startswith s p = prefix p s"

text \<open>The characters \<^verbatim>\<open>str.strip()\<close> removes, among the 8-bit ones.\<close>

definition is_space :: "char \<Rightarrow> bool" where
  "is_space c = (let n = (of_char c :: nat) in (9 \<le> n \<and> n \<le> 13) \<or> (28 \<le> n \<and> n \<le> 32))"

definition strip :: "string \<Rightarrow> string" where
  "strip s = rev (dropWhile is_space (rev (dropWhile is_space s)))"

text \<open>\<^verbatim>\<open>s.replace(old, new)\<close>, scanning from the left without overlap.\<close>

function replace :: "string \<Rightarrow> string \<Rightarrow> string \<Rightarrow> string" where
  "replace old new s =
     (if old = [] then new @ concat (map (\<lambda>c. c # new) s)
      else if s = [] then []
      else if prefix old s then new @ replace old new (drop (length old) s)
      else hd s # replace old new (tl s))"
  by pat_completeness auto
termination
  by (relation "measure (\<lambda>(old, new, s). length s)") auto

declare replace.simps [simp del]

definition unescape :: "json \<Rightarrow> error + json" where
  "unescape v = (case v of JStr s \<Rightarrow> Inr (JStr (replace ''&amp;'' ''&'' s))
                 | _ \<Rightarrow> Inl AttributeError)"

section \<open>Configuration and posts\<close>

text \<open>
  \<^verbatim>\<open>ScraperConfig\<close>. The float \<^verbatim>\<open>delay\<close> is left out: it is only passed to
  \<^verbatim>\<open>time.sleep\<close>.
\<close>

record scraper_config =
  subreddit :: string
  output_dir :: string
  limit :: int
  sort_mode :: string
  time_filter :: string
  min_width :: int
  min_height :: int
  min_score :: int
  include_nsfw :: bool
  max_workers :: int
  skip_existing :: bool
  verbose :: bool

text \<open>
  \<^verbatim>\<open>RedditPost\<close>, with the types of the dataclass annotations. \<^verbatim>\<open>created_utc\<close>
  keeps the decoded value.
\<close>

record reddit_post =
  post_id :: string
  title :: string
  author :: string
  post_subreddit :: string
  url :: string
  permalink :: string
  score :: int
  created_utc :: json
  is_nsfw :: bool
  width :: int
  height :: int

text \<open>
  \<^verbatim>\<open>urllib.parse.urlparse\<close> belongs to the standard library. The functions below take
  it as the parameter \<open>up\<close>, which gives the two components the code reads or raises
  (\<^verbatim>\<open>ValueError\<close> on an unbalanced bracket in the host).
\<close>

record parsed =
  netloc :: string
  path :: string

type_synonym urlparser = "string \<Rightarrow> error + parsed"

definition illegal_chars :: "char list" where
  "illegal_chars = [CHR ''<'', CHR ''>'', CHR '':'', CHR 0x22, CHR ''/'', CHR 0x5C,
                    CHR ''|'', CHR ''?'', CHR ''*'']"

definition file_extensions :: "string list" where
  "file_extensions = [''.jpg'', ''.jpeg'', ''.png'', ''.gif'', ''.webp'', ''.mp4'']"

definition safe_title :: "string \<Rightarrow> string" where
  "safe_title t = strip (take 80 (filter (\<lambda>c. c \<notin> set illegal_chars) t))"

definition get_extension :: "urlparser \<Rightarrow> reddit_post \<Rightarrow> error + string" where
  "get_extension up p =
     bindE (up (url p)) (\<lambda>pr.
       let pth = lower (path pr) in
       Inr (case find (\<lambda>ext. endswith pth ext) file_extensions of
              Some ext \<Rightarrow> ext
            | None \<Rightarrow> ''.jpg''))"

definition filename :: "urlparser \<Rightarrow> reddit_post \<Rightarrow> error + string" where
  "filename up p =
     (let st = safe_title (title p) in
      bindE (get_extension up p) (\<lambda>ext. Inr (post_id p @ ''_'' @ st @ ext)))"

section \<open>Resolving the image of an entry\<close>

definition IMAGE_DOMAINS :: "string list" where
  "IMAGE_DOMAINS = [''i.redd.it'', ''i.imgur.com'', ''imgur.com'', ''preview.redd.it'',
                    ''external-preview.redd.it'']"

definition IMAGE_EXTENSIONS :: "string list" where
  "IMAGE_EXTENSIONS = [''.jpg'', ''.jpeg'', ''.png'', ''.gif'', ''.webp'']"

text \<open>\<^verbatim>\<open>_is_image_url\<close>. \<^verbatim>\<open>urlparse\<close> of a truthy value that is not a string
  raises \<^verbatim>\<open>AttributeError\<close> (it has no \<^verbatim>\<open>decode\<close>).\<close>

definition is_image_url :: "urlparser \<Rightarrow> json \<Rightarrow> error + bool" where
  "is_image_url up u =
     (if \<not> truthy u then Inr False
      else case u of
        JStr s \<Rightarrow>
          bindE (up s) (\<lambda>pr.
            if netloc pr \<in> set IMAGE_DOMAINS then Inr True
            else Inr (list_ex (\<lambda>ext. endswith (lower (path pr)) ext) IMAGE_EXTENSIONS))
      | _ \<Rightarrow> Inl AttributeError)"

text \<open>
  \<^verbatim>\<open>_extract_image_url\<close> tries four strategies in turn; each either returns a value
  (\<open>Some\<close>), falls through to the next (\<open>None\<close>) or raises. \<open>or_else\<close> is the
  fall-through.
\<close>

definition or_else :: "error + json option \<Rightarrow> error + json option \<Rightarrow> error + json option" where
  "or_else m k = bindE m (\<lambda>r. case r of Some v \<Rightarrow> Inr (Some v) | None \<Rightarrow> k)"

definition direct_image :: "urlparser \<Rightarrow> json \<Rightarrow> error + json option" where
  "direct_image up u = bindE (is_image_url up u) (\<lambda>b. Inr (if b then Some u else None))"

definition values_first :: "json \<Rightarrow> error + json" where
  "values_first m = (case m of JObj (kv # kvs) \<Rightarrow> Inr (snd kv)
                     | JObj [] \<Rightarrow> Inl IndexError
                     | _ \<Rightarrow> Inl AttributeError)"

definition gallery_image :: "json \<Rightarrow> error + json option" where
  "gallery_image post_data =
     bindE (py_get post_data ''is_gallery'' JNull) (\<lambda>g.
       if truthy g then
         bindE (py_get post_data ''media_metadata'' (JObj [])) (\<lambda>media_metadata.
           if truthy media_metadata then
             bindE (values_first media_metadata) (\<lambda>first_item.
               bindE (py_in ''s'' first_item) (\<lambda>has_s.
                 if has_s then
                   bindE (py_item first_item ''s'') (\<lambda>s.
                     bindE (py_get s ''u'' (JStr [])) (\<lambda>u.
                       bindE (unescape u) (\<lambda>r. Inr (Some r))))
                 else Inr None))
           else Inr None)
       else Inr None)"

definition preview_image :: "json \<Rightarrow> error + json option" where
  "preview_image post_data =
     bindE (py_get post_data ''preview'' (JObj [])) (\<lambda>preview.
       if truthy preview then
         bindE (py_get preview ''images'' (JList [])) (\<lambda>images.
           if truthy images then
             bindE (py_first images) (\<lambda>image.
               bindE (py_get image ''source'' (JObj [])) (\<lambda>source.
                 bindE (py_get source ''url'' (JStr [])) (\<lambda>u.
                   bindE (unescape u) (\<lambda>preview_url.
                     Inr (if truthy preview_url then Some preview_url else None)))))
           else Inr None)
       else Inr None)"

definition py_add_str :: "json \<Rightarrow> string \<Rightarrow> error + json" where
  "py_add_str v s = (case v of JStr t \<Rightarrow> Inr (JStr (t @ s)) | _ \<Rightarrow> Inl TypeError)"

definition imgur_image :: "urlparser \<Rightarrow> json \<Rightarrow> error + json option" where
  "imgur_image up u =
     bindE (py_in ''imgur.com'' u) (\<lambda>has.
       if has then
         bindE (is_image_url up u) (\<lambda>img.
           if \<not> img then
             bindE (py_in ''/a/'' u) (\<lambda>album.
               if \<not> album then
                 bindE (py_in ''/gallery/'' u) (\<lambda>gal.
                   if \<not> gal then bindE (py_add_str u ''.jpg'') (\<lambda>r. Inr (Some r))
                   else Inr None)
               else Inr None)
           else Inr None)
       else Inr None)"

definition extract_image_url :: "urlparser \<Rightarrow> json \<Rightarrow> error + json option" where
  "extract_image_url up post_data =
     bindE (py_get post_data ''url'' (JStr [])) (\<lambda>u.
       or_else (direct_image up u)
         (or_else (gallery_image post_data)
            (or_else (preview_image post_data)
               (imgur_image up u))))"

section \<open>Parsing and filtering an entry\<close>

text \<open>
  The dimensions of the preview, when there is one; 0 otherwise.
\<close>

definition preview_dims :: "json \<Rightarrow> error + json \<times> json" where
  "preview_dims data =
     bindE (py_get data ''preview'' (JObj [])) (\<lambda>preview.
       if truthy preview then
         bindE (py_get preview ''images'' (JList [])) (\<lambda>images.
           if truthy images then
             bindE (py_first images) (\<lambda>image.
               bindE (py_get image ''source'' (JObj [])) (\<lambda>source.
                 bindE (py_get source ''width'' (JInt 0)) (\<lambda>w.
                   bindE (py_get source ''height'' (JInt 0)) (\<lambda>h. Inr (w, h)))))
           else Inr (JInt 0, JInt 0))
       else Inr (JInt 0, JInt 0))"

text \<open>\<^verbatim>\<open>w and m and w < m\<close>: the comparison is evaluated only when both are truthy.\<close>

definition too_small :: "json \<Rightarrow> int \<Rightarrow> error + bool" where
  "too_small w m = (if truthy w \<and> m \<noteq> 0 then py_lt w m else Inr False)"

text \<open>
  The constructor call \<^verbatim>\<open>RedditPost(...)\<close>. Python stores whatever the entry holds; the
  record has the annotated types, and a value outside its annotation ends the embedding
  with \<open>Untyped\<close>.
\<close>

definition as_str :: "json \<Rightarrow> error + string" where
  "as_str v = (case v of JStr s \<Rightarrow> Inr s | _ \<Rightarrow> Inl Untyped)"

definition as_int :: "json \<Rightarrow> error + int" where
  "as_int v = (case v of JInt i \<Rightarrow> Inr i | JBool b \<Rightarrow> Inr (if b then 1 else 0)
               | _ \<Rightarrow> Inl Untyped)"

definition as_bool :: "json \<Rightarrow> error + bool" where
  "as_bool v = (case v of JBool b \<Rightarrow> Inr b | _ \<Rightarrow> Inl Untyped)"

definition make_post ::
  "scraper_config \<Rightarrow> json \<Rightarrow> json \<Rightarrow> json \<Rightarrow> json \<Rightarrow> json \<Rightarrow> error + reddit_post" where
  "make_post cfg data image_url sc w h =
     bindE (bindE (py_get data ''id'' (JStr [])) as_str) (\<lambda>i.
     bindE (bindE (py_get data ''title'' (JStr ''Untitled'')) as_str) (\<lambda>t.
     bindE (bindE (py_get data ''author'' (JStr ''unknown'')) as_str) (\<lambda>a.
     bindE (bindE (py_get data ''subreddit'' (JStr (subreddit cfg))) as_str) (\<lambda>sr.
     bindE (as_str image_url) (\<lambda>u.
     bindE (bindE (py_get data ''permalink'' (JStr [])) as_str) (\<lambda>pl.
     bindE (as_int sc) (\<lambda>sci.
     bindE (py_get data ''created_utc'' (JInt 0)) (\<lambda>cu.
     bindE (bindE (py_get data ''over_18'' (JBool True)) as_bool) (\<lambda>nsfw.
     bindE (as_int w) (\<lambda>wi.
     bindE (as_int h) (\<lambda>hi.
       Inr \<lparr>post_id = i, title = t, author = a, post_subreddit = sr, url = u,
            permalink = pl, score = sci, created_utc = cu, is_nsfw = nsfw,
            width = wi, height = hi\<rparr>)))))))))))"

definition parse_post :: "scraper_config \<Rightarrow> urlparser \<Rightarrow> json \<Rightarrow> error + reddit_post option" where
  "parse_post cfg up post_data =
     bindE (py_get post_data ''data'' (JObj [])) (\<lambda>data.
     bindE (py_get data ''is_self'' (JBool True)) (\<lambda>is_self.
       if truthy is_self then Inr None
       else
     bindE (py_get data ''is_video'' (JBool True)) (\<lambda>is_video.
       if truthy is_video then Inr None
       else
     bindE (py_get data ''over_18'' (JBool True)) (\<lambda>over_18.
       if truthy over_18 \<and> \<not> include_nsfw cfg then Inr None
       else
     bindE (extract_image_url up data) (\<lambda>image_url.
       case image_url of
         None \<Rightarrow> Inr None
       | Some iu \<Rightarrow>
           if \<not> truthy iu then Inr None
           else
     bindE (py_get data ''score'' (JInt 0)) (\<lambda>sc.
     bindE (py_lt sc (min_score cfg)) (\<lambda>low.
       if low then Inr None
       else
     bindE (preview_dims data) (\<lambda>wh.
     bindE (too_small (fst wh) (min_width cfg)) (\<lambda>narrow.
       if narrow then Inr None
       else
     bindE (too_small (snd wh) (min_height cfg)) (\<lambda>short.
       if short then Inr None
       else
     bindE (make_post cfg data iu sc (fst wh) (snd wh)) (\<lambda>p. Inr (Some p))))))))))))"

section \<open>The state of a run and the deduplication index\<close>

text \<open>
  \<^verbatim>\<open>RedditScraper\<close> keeps two sets of identifiers and four counters
  (\<^verbatim>\<open>self.stats\<close>).
\<close>

record run_state =
  downloaded :: "string set"
  failed :: "string set"
  stat_found :: int
  stat_downloaded :: int
  stat_skipped :: int
  stat_failed :: int

text \<open>
  \<^verbatim>\<open>Path.stem\<close>: the name without its last suffix; a name whose last dot is its first
  or its last character has no suffix.
\<close>

definition stem :: "string \<Rightarrow> string" where
  "stem name =
     (if CHR ''.'' \<in> set name then
        (let i = length name - 1 - length (takeWhile (\<lambda>c. c \<noteq> CHR ''.'') (rev name))
         in if 0 < i \<and> i < length name - 1 then take i name else name)
      else name)"

text \<open>\<^verbatim>\<open>file.stem.split('_')[0]\<close>.\<close>

definition stem_id :: "string \<Rightarrow> string" where
  "stem_id name = takeWhile (\<lambda>c. c \<noteq> CHR ''_'') (stem name)"

text \<open>\<^verbatim>\<open>_load_existing_files\<close>, over the names of the regular files of the output
  directory.\<close>

fun load_existing_files :: "string list \<Rightarrow> run_state \<Rightarrow> run_state" where
  "load_existing_files [] st = st"
| "load_existing_files (f # fs) st =
     load_existing_files fs (st\<lparr>downloaded := insert (stem_id f) (downloaded st)\<rparr>)"

definition init :: "scraper_config \<Rightarrow> string list \<Rightarrow> run_state" where
  "init cfg names =
     (let st = \<lparr>downloaded = {}, failed = {}, stat_found = 0, stat_downloaded = 0,
                stat_skipped = 0, stat_failed = 0\<rparr>
      in if skip_existing cfg then load_existing_files names st else st)"

section \<open>Fetching the listing\<close>

text \<open>
  The request URL is kept as its base and the parameters handed to
  \<^verbatim>\<open>urllib.parse.urlencode\<close>, in the order the code inserts them.
\<close>

record query =
  base :: string
  params :: "(string \<times> json) list"

definition build_url :: "scraper_config \<Rightarrow> json \<Rightarrow> query" where
  "build_url cfg after =
     \<lparr>base = ''https://www.reddit.com/r/'' @ subreddit cfg @ ''/'' @ sort_mode cfg @ ''.json'',
      params = [(''limit'', JInt (min 100 (limit cfg))), (''raw_json'', JInt 1)]
               @ (if sort_mode cfg = ''top'' then [(''t'', JStr (time_filter cfg))] else [])
               @ (if truthy after then [(''after'', after)] else [])\<rparr>"

text \<open>
  What the network answers to one request: a body that decodes to a value, or one of the
  exceptions \<^verbatim>\<open>_make_request\<close> handles. The answers to the successive requests of a
  run are a list; a function that runs out of answers has no result (\<open>None\<close>).
  What the run does to the outside is recorded as a list of events.
\<close>

datatype response =
    Json json
  | HTTPError nat
  | URLError
  | JSONDecodeError
  | OtherException

datatype event =
    Request query
  | Sleep nat
  | Delay

text \<open>
  \<^verbatim>\<open>_make_request\<close>: a 429 sleeps 60 seconds and calls the function again; every other
  exception prints and returns \<^verbatim>\<open>None\<close> (here \<open>JNull\<close>). The interpreter's bound on
  the depth of the recursion is not modelled.
\<close>

fun make_request :: "query \<Rightarrow> response list \<Rightarrow> (json \<times> response list \<times> event list) option" where
  "make_request q [] = None"
| "make_request q (r # rs) =
     (case r of
        Json j \<Rightarrow> Some (j, rs, [Request q])
      | HTTPError code \<Rightarrow>
          if code = 429 then
            (case make_request q rs of
               None \<Rightarrow> None
             | Some (j, rs', ev) \<Rightarrow> Some (j, rs', Request q # Sleep 60 # ev))
          else Some (JNull, rs, [Request q])
      | URLError \<Rightarrow> Some (JNull, rs, [Request q])
      | JSONDecodeError \<Rightarrow> Some (JNull, rs, [Request q])
      | OtherException \<Rightarrow> Some (JNull, rs, [Request q]))"

text \<open>The variables of the loop of \<^verbatim>\<open>fetch_posts\<close>, with the skip counter and the
  events so far.\<close>

record fetch_state =
  posts :: "reddit_post list"
  after :: json
  fetched :: int
  skipped :: int
  trace :: "event list"

text \<open>The inner loop, \<^verbatim>\<open>for child in children\<close>.\<close>

fun scan_children ::
  "scraper_config \<Rightarrow> urlparser \<Rightarrow> string set \<Rightarrow> json list \<Rightarrow> fetch_state \<Rightarrow> error + fetch_state"
where
  "scan_children cfg up dl [] st = Inr st"
| "scan_children cfg up dl (child # children) st =
     (if fetched st \<ge> limit cfg then Inr st
      else
        bindE (parse_post cfg up child) (\<lambda>post.
          case post of
            None \<Rightarrow> scan_children cfg up dl children st
          | Some p \<Rightarrow>
              if post_id p \<in> dl
              then scan_children cfg up dl children (st\<lparr>skipped := skipped st + 1\<rparr>)
              else scan_children cfg up dl children
                     (st\<lparr>posts := posts st @ [p], fetched := fetched st + 1\<rparr>)))"

definition get_children :: "json \<Rightarrow> error + json" where
  "get_children data = bindE (py_get data ''data'' (JObj [])) (\<lambda>d. py_get d ''children'' (JList []))"

definition get_after :: "json \<Rightarrow> error + json" where
  "get_after data = bindE (py_get data ''data'' (JObj [])) (\<lambda>d. py_get d ''after'' JNull)"

text \<open>The outer loop, \<^verbatim>\<open>while fetched < self.config.limit\<close>. An exception leaves
  the function (\<open>Inl\<close>).\<close>

function fetch_loop ::
  "scraper_config \<Rightarrow> urlparser \<Rightarrow> string set \<Rightarrow> fetch_state \<Rightarrow> response list
     \<Rightarrow> (error + fetch_state) option"
where
  "fetch_loop cfg up dl st script =
     (if fetched st < limit cfg then
        (case make_request (build_url cfg (after st)) script of
           None \<Rightarrow> None
         | Some (data, script', ev) \<Rightarrow>
             let st1 = st\<lparr>trace := trace st @ ev\<rparr> in
             if \<not> truthy data then Some (Inr st1)
             else
               (case get_children data of
                  Inl e \<Rightarrow> Some (Inl e)
                | Inr children \<Rightarrow>
                    if \<not> truthy children then Some (Inr st1)
                    else
                      (case bindE (py_iter children) (\<lambda>cs. scan_children cfg up dl cs st1) of
                         Inl e \<Rightarrow> Some (Inl e)
                       | Inr st2 \<Rightarrow>
                           (case get_after data of
                              Inl e \<Rightarrow> Some (Inl e)
                            | Inr a \<Rightarrow>
                                if \<not> truthy a then Some (Inr (st2\<lparr>after := a\<rparr>))
                                else fetch_loop cfg up dl
                                       (st2\<lparr>after := a, trace := trace st2 @ [Delay]\<rparr>)
                                       script'))))
      else Some (Inr st))"
  by pat_completeness auto
termination
proof (relation "measure (\<lambda>(cfg, up, dl, st, script). length script)")
  show "wf (measure (\<lambda>(cfg, up, dl, st, script). length script))"
    by simp
next
  fix cfg :: scraper_config and up :: urlparser and dl :: "string set"
    and st :: fetch_state and script :: "response list"
    and x2 :: "json \<times> response list \<times> event list" and data y script' ev
    and st2 :: fetch_state and a :: json
  assume mr: "make_request (build_url cfg (after st)) script = Some x2"
    and x2: "(data, y) = x2" "(script', ev) = y"
  have shorter: "make_request q s = Some (d, s', e) \<Longrightarrow> length s' < length s"
    for q s d s' e
  proof (induction s arbitrary: d s' e)
    case Nil
    then show ?case by simp
  next
    case (Cons r rs)
    then show ?case
      by (cases r) (fastforce split: if_splits option.splits)+
  qed
  from mr x2 have "make_request (build_url cfg (after st)) script = Some (data, script', ev)"
    by simp
  from shorter [OF this]
  show "((cfg, up, dl, st2\<lparr>after := a, trace := trace st2 @ [Delay]\<rparr>, script'),
         (cfg, up, dl, st, script)) \<in> measure (\<lambda>(cfg, up, dl, st, script). length script)"
    by simp
qed

declare fetch_loop.simps [simp del]

text \<open>\<^verbatim>\<open>fetch_posts\<close>: the posts found, the state with its counters updated, and the
  events.\<close>

definition fetch_posts ::
  "scraper_config \<Rightarrow> urlparser \<Rightarrow> run_state \<Rightarrow> response list
     \<Rightarrow> (error + reddit_post list \<times> run_state \<times> event list) option"
where
  "fetch_posts cfg up rs script =
     (case fetch_loop cfg up (downloaded rs)
             \<lparr>posts = [], after = JNull, fetched = 0, skipped = stat_skipped rs, trace = []\<rparr>
             script of
        None \<Rightarrow> None
      | Some (Inl e) \<Rightarrow> Some (Inl e)
      | Some (Inr st) \<Rightarrow>
          Some (Inr (posts st,
                     rs\<lparr>stat_skipped := skipped st, stat_found := int (length (posts st))\<rparr>,
                     trace st)))"

section \<open>Downloading\<close>

text \<open>
  The output directory is a map from file names to contents. The outside of a download is
  what \<^verbatim>\<open>urlopen\<close> does for a URL (it raises, or it gives a response with an optional
  \<^verbatim>\<open>Content-Type\<close> header and a body whose \<^verbatim>\<open>read()\<close> returns or raises) and
  whether \<^verbatim>\<open>open(filepath, 'wb')\<close> succeeds for a name.
\<close>

type_synonym files = "string \<rightharpoonup> string"

datatype dl_response =
    Unreachable
  | Served "string option" "string option"

record dl_env =
  http_get :: "string \<Rightarrow> dl_response"
  can_open :: "string \<Rightarrow> bool"

text \<open>
  \<^verbatim>\<open>_download_image\<close>. The file name is computed before the \<^verbatim>\<open>try\<close>, so an
  exception of \<^verbatim>\<open>urlparse\<close> leaves the function; everything after is caught and gives
  \<^verbatim>\<open>False\<close>. \<^verbatim>\<open>open\<close> creates the file before \<^verbatim>\<open>response.read()\<close> is
  evaluated.
\<close>

definition download_image ::
  "dl_env \<Rightarrow> urlparser \<Rightarrow> files \<Rightarrow> reddit_post \<Rightarrow> (error + bool) \<times> files" where
  "download_image env up fs post =
     (case filename up post of
        Inl e \<Rightarrow> (Inl e, fs)
      | Inr name \<Rightarrow>
          if fs name \<noteq> None then (Inr True, fs)
          else
            (case http_get env (url post) of
               Unreachable \<Rightarrow> (Inr False, fs)
             | Served ct body \<Rightarrow>
                 let content_type = (case ct of None \<Rightarrow> [] | Some c \<Rightarrow> c) in
                 if \<not> startswith content_type ''image/'' then (Inr False, fs)
                 else if \<not> can_open env name then (Inr False, fs)
                 else
                   (case body of
                      None \<Rightarrow> (Inr False, fs(name \<mapsto> []))
                    | Some b \<Rightarrow> (Inr True, fs(name \<mapsto> b)))))"

text \<open>The body of the loop over \<^verbatim>\<open>as_completed(futures)\<close>, for one finished task.\<close>

definition account :: "error + bool \<Rightarrow> reddit_post \<Rightarrow> run_state \<Rightarrow> run_state" where
  "account res post st =
     (case res of
        Inr success \<Rightarrow>
          if success
          then st\<lparr>stat_downloaded := stat_downloaded st + 1,
                  downloaded := insert (post_id post) (downloaded st)\<rparr>
          else st\<lparr>stat_failed := stat_failed st + 1,
                  failed := insert (post_id post) (failed st)\<rparr>
      | Inl e \<Rightarrow> st\<lparr>stat_failed := stat_failed st + 1\<rparr>)"

definition complete ::
  "dl_env \<Rightarrow> urlparser \<Rightarrow> reddit_post \<Rightarrow> run_state \<times> files \<Rightarrow> run_state \<times> files" where
  "complete env up post sf =
     (let (res, fs') = download_image env up (snd sf) post
      in (account res post (fst sf), fs'))"

text \<open>
  \<^verbatim>\<open>download_all\<close>. The pool runs one task for each post; a task reads and writes
  nothing but the file at its own target path, and the main thread alone updates the
  counters, one finished task at a time. The tasks are taken whole, in the order
  \<open>sched\<close> in which they finish, which is some arrangement of the posts \<open>ps\<close>.
\<close>

definition download_all ::
  "dl_env \<Rightarrow> urlparser \<Rightarrow> reddit_post list \<Rightarrow> reddit_post list \<Rightarrow> run_state \<times> files
     \<Rightarrow> run_state \<times> files" where
  "download_all env up sched ps sf =
     (if ps = [] then sf else fold (complete env up) sched sf)"

section \<open>A URL parser for the examples\<close>

text \<open>
  The examples below need a concrete parser. \<open>urlparse\<close> follows the steps of the
  library function on a URL without control characters and without \<^verbatim>\<open>;\<close>
  parameters: an optional scheme before the first colon, a host after \<^verbatim>\<open>//\<close> up to
  the first of \<^verbatim>\<open>/?#\<close>, and the path up to the first \<^verbatim>\<open>?\<close> or \<^verbatim>\<open>#\<close>.
\<close>

definition scheme_char :: "char \<Rightarrow> bool" where
  "scheme_char c =
     (let n = (of_char c :: nat)
      in (97 \<le> n \<and> n \<le> 122) \<or> (65 \<le> n \<and> n \<le> 90) \<or> (48 \<le> n \<and> n \<le> 57)
         \<or> c = CHR ''+'' \<or> c = CHR ''-'' \<or> c = CHR ''.'')"

definition alpha_char :: "char \<Rightarrow> bool" where
  "alpha_char c =
     (let n = (of_char c :: nat) in (97 \<le> n \<and> n \<le> 122) \<or> (65 \<le> n \<and> n \<le> 90))"

definition drop_scheme :: "string \<Rightarrow> string" where
  "drop_scheme u =
     (let s = takeWhile (\<lambda>c. c \<noteq> CHR '':'') u
      in if CHR '':'' \<in> set u \<and> s \<noteq> [] \<and> alpha_char (hd s) \<and> list_all scheme_char s
         then drop (length s + 1) u else u)"

definition host_end :: "char \<Rightarrow> bool" where
  "host_end c = (c = CHR ''/'' \<or> c = CHR ''?'' \<or> c = CHR ''#'')"

definition urlparse :: urlparser where
  "urlparse u =
     (let r = drop_scheme u;
          nl = (if take 2 r = ''//'' then takeWhile (\<lambda>c. \<not> host_end c) (drop 2 r) else []);
          r' = (if take 2 r = ''//'' then dropWhile (\<lambda>c. \<not> host_end c) (drop 2 r) else r)
      in if (CHR ''['' \<in> set nl) \<noteq> (CHR '']'' \<in> set nl) then Inl ValueError
         else Inr \<lparr>netloc = nl,
                   path = takeWhile (\<lambda>c. c \<noteq> CHR ''?'' \<and> c \<noteq> CHR ''#'') r'\<rparr>)"

section \<open>Example data\<close>

definition cfg0 :: scraper_config where
  "cfg0 = \<lparr>subreddit = ''pics'', output_dir = ''downloads'', limit = 5, sort_mode = ''hot'',
            time_filter = ''week'', min_width = 0, min_height = 0, min_score = 0,
            include_nsfw = False, max_workers = 5, skip_existing = True, verbose = True\<rparr>"

definition post0 :: reddit_post where
  "post0 = \<lparr>post_id = ''abc'', title = ''Sun: rise / set?'', author = ''u1'',
             post_subreddit = ''pics'', url = ''https://i.redd.it/Sun.PNG?x=1'',
             permalink = ''/r/pics/abc'', score = 10, created_utc = JInt 0, is_nsfw = False,
             width = 0, height = 0\<rparr>"


text \<open>Two entries with a field missing, and a configuration that opts in to sensitive
  content.\<close>

definition data_no_self :: "(string \<times> json) list" where
  "data_no_self = [(''id'', JStr ''x1''), (''title'', JStr ''No flag''),
                   (''is_video'', JBool False), (''over_18'', JBool False),
                   (''url'', JStr ''https://i.redd.it/x1.png''), (''score'', JInt 3)]"

definition data_no_over18 :: "(string \<times> json) list" where
  "data_no_over18 = [(''id'', JStr ''x2''), (''title'', JStr ''No age flag''),
                     (''is_self'', JBool False), (''is_video'', JBool False),
                     (''url'', JStr ''https://i.redd.it/x2.png''), (''score'', JInt 3)]"

definition cfg_nsfw :: scraper_config where
  "cfg_nsfw = cfg0\<lparr>include_nsfw := True\<rparr>"

text \<open>
  The spec's words for the identifier of a file on disk: the portion of the file name
  preceding the first separator.
\<close>

definition spec_name_prefix :: "string \<Rightarrow> string" where
  "spec_name_prefix name = takeWhile (\<lambda>c. c \<noteq> CHR ''_'') name"

definition names0 :: "string list" where
  "names0 = [''abc_Sun rise  set.png'', ''abd_Moon.jpg'', ''abc_Other.gif'']"






text \<open>Five candidates and three download environments: one that answers the third
  candidate with an HTML page, one whose bodies break off, and one that serves images.\<close>

definition cand :: "string \<Rightarrow> reddit_post" where
  "cand i = \<lparr>post_id = i, title = ''pic '' @ i, author = ''u1'', post_subreddit = ''pics'',
              url = ''https://i.redd.it/'' @ i @ ''.png'', permalink = [], score = 1,
              created_utc = JInt 0, is_nsfw = False, width = 0, height = 0\<rparr>"

definition five :: "reddit_post list" where
  "five = [cand ''a'', cand ''b'', cand ''c'', cand ''d'', cand ''e'']"

definition env_html :: dl_env where
  "env_html = \<lparr>http_get = (\<lambda>u. if u = ''https://i.redd.it/c.png''
                                  then Served (Some ''text/html'') (Some ''<html></html>'')
                                  else Served (Some ''image/png'') (Some ''PNG'')),
                can_open = (\<lambda>n. True)\<rparr>"

definition env_cut :: dl_env where
  "env_cut = \<lparr>http_get = (\<lambda>u. Served (Some ''image/png'') None), can_open = (\<lambda>n. True)\<rparr>"

definition env_ok :: dl_env where
  "env_ok = \<lparr>http_get = (\<lambda>u. Served (Some ''image/png'') (Some ''PNG'')),
              can_open = (\<lambda>n. True)\<rparr>"

definition st0 :: run_state where
  "st0 = \<lparr>downloaded = {}, failed = {}, stat_found = 0, stat_downloaded = 0,
          stat_skipped = 0, stat_failed = 0\<rparr>"

definition four :: "reddit_post list" where
  "four = [cand ''a'', cand ''b'', cand ''d'', cand ''e'']"

definition fs_a :: files where
  "fs_a = [''a_pic a.png'' \<mapsto> ''old'']"

text \<open>The shape of a listing page: \<^verbatim>\<open>data.children\<close> and \<^verbatim>\<open>data.after\<close>.\<close>

definition listing :: "json list \<Rightarrow> json \<Rightarrow> json" where
  "listing cs a =
     JObj [(''kind'', JStr ''Listing''), (''data'', JObj [(''after'', a), (''children'', JList cs)])]"

text \<open>An entry qualifies when it parses to a post whose identifier is not known yet: the
  test of the inner loop of \<^verbatim>\<open>fetch_posts\<close>.\<close>

definition qualifying ::
  "scraper_config \<Rightarrow> urlparser \<Rightarrow> string set \<Rightarrow> json \<Rightarrow> reddit_post option" where
  "qualifying cfg up dl child =
     (case parse_post cfg up child of
        Inr (Some p) \<Rightarrow> if post_id p \<in> dl then None else Some p
      | _ \<Rightarrow> None)"

text \<open>The requests among the events of a run.\<close>

fun requests :: "event list \<Rightarrow> query list" where
  "requests [] = []"
| "requests (Request q # es) = q # requests es"
| "requests (e # es) = requests es"

text \<open>The qualifying entries of a list of pages (each a list of entries and a cursor), in
  their order.\<close>

definition kept ::
  "scraper_config \<Rightarrow> urlparser \<Rightarrow> string set \<Rightarrow> (json list \<times> json) list \<Rightarrow> reddit_post list" where
  "kept cfg up dl pgs = List.map_filter (qualifying cfg up dl) (concat (map fst pgs))"

text \<open>The answers of a network that serves the pages in turn.\<close>

definition serve :: "(json list \<times> json) list \<Rightarrow> response list" where
  "serve pgs = map (\<lambda>pg. Json (listing (fst pg) (snd pg))) pgs"

text \<open>The spec's words for the page size of a request: the minimum of 100 and the
  remaining target.\<close>

definition spec_page_limit :: "int \<Rightarrow> int \<Rightarrow> int" where
  "spec_page_limit target accumulated = min 100 (target - accumulated)"

text \<open>An image entry that parses to \<open>cand i\<close>, and three pages of a listing.\<close>

definition entry :: "string \<Rightarrow> json" where
  "entry i =
     JObj [(''kind'', JStr ''t3''),
           (''data'', JObj [(''id'', JStr i), (''title'', JStr (''pic '' @ i)),
                            (''author'', JStr ''u1''), (''is_self'', JBool False),
                            (''is_video'', JBool False), (''over_18'', JBool False),
                            (''url'', JStr (''https://i.redd.it/'' @ i @ ''.png'')),
                            (''score'', JInt 1)])]"

definition page1 :: "json list \<times> json" where
  "page1 = ([entry ''a'', entry ''b'', entry ''c''], JStr ''t3_c'')"

definition page2 :: "json list \<times> json" where
  "page2 = ([entry ''d'', entry ''e'', entry ''f''], JStr ''t3_f'')"

definition page3 :: "json list \<times> json" where
  "page3 = ([entry ''g''], JNull)"

definition q0 :: query where
  "q0 = \<lparr>base = ''https://www.reddit.com/r/pics/hot.json'',
          params = [(''limit'', JInt 5), (''raw_json'', JInt 1)]\<rparr>"

definition q1 :: query where
  "q1 = \<lparr>base = ''https://www.reddit.com/r/pics/hot.json'',
          params = [(''limit'', JInt 5), (''raw_json'', JInt 1), (''after'', JStr ''t3_c'')]\<rparr>"


section \<open>Properties\<close>

lemma bindE_simps [simp]: "bindE (Inl e) f = Inl e" "bindE (Inr x) f = f x"
  by (simp_all add: bindE_def)

subsection \<open>File names\<close>











subsection \<open>Missing flags\<close>

lemma bindE_Inr_iff: "bindE m f = Inr y \<longleftrightarrow> (\<exists>x. m = Inr x \<and> f x = Inr y)"
  by (cases m) simp_all

lemma make_post_nsfw:
  assumes "make_post cfg (JObj kvs) iu sc w h = Inr p" and "map_of kvs ''over_18'' = None"
  shows "is_nsfw p"
  using assms
  unfolding make_post_def
  by (auto simp: bindE_Inr_iff as_bool_def)

lemma parse_post_made:
  assumes "parse_post cfg up post_data = Inr (Some p)"
    and "py_get post_data ''data'' (JObj []) = Inr data"
  shows "\<exists>iu sc w h. make_post cfg data iu sc w h = Inr p"
  using assms
  unfolding parse_post_def
  by (auto simp: bindE_Inr_iff split: if_splits option.splits) blast+

text \<open>
  Claim C5. Take an entry whose \<^verbatim>\<open>data\<close> record is the dict \<open>kvs\<close>. If the record
  has no \<^verbatim>\<open>is_self\<close> or no \<^verbatim>\<open>is_video\<close>, the entry is rejected. If it has no
  \<^verbatim>\<open>over_18\<close> and sensitive content is not opted in, the entry is rejected; so an
  entry without \<^verbatim>\<open>over_18\<close> that becomes a post does so under the opt-in only, and the
  post is marked sensitive.
\<close>

theorem missing_flags_fail_closed:
  assumes "py_get post_data ''data'' (JObj []) = Inr (JObj kvs)"
  shows "(map_of kvs ''is_self'' = None \<or> map_of kvs ''is_video'' = None
            \<longrightarrow> parse_post cfg up post_data = Inr None)
       \<and> (map_of kvs ''over_18'' = None \<and> \<not> include_nsfw cfg
            \<longrightarrow> parse_post cfg up post_data = Inr None)
       \<and> (map_of kvs ''over_18'' = None \<and> parse_post cfg up post_data = Inr (Some p)
            \<longrightarrow> include_nsfw cfg \<and> is_nsfw p)"
proof (intro conjI impI)
  assume "map_of kvs ''is_self'' = None \<or> map_of kvs ''is_video'' = None"
  with assms show "parse_post cfg up post_data = Inr None"
    by (auto simp: parse_post_def)
next
  assume "map_of kvs ''over_18'' = None \<and> \<not> include_nsfw cfg"
  with assms show nsfw: "parse_post cfg up post_data = Inr None"
    by (auto simp: parse_post_def)
next
  assume a: "map_of kvs ''over_18'' = None \<and> parse_post cfg up post_data = Inr (Some p)"
  with assms show "include_nsfw cfg"
    by (auto simp: parse_post_def split: if_splits)
next
  assume a: "map_of kvs ''over_18'' = None \<and> parse_post cfg up post_data = Inr (Some p)"
  with parse_post_made [OF _ assms] obtain iu sc w h
    where "make_post cfg (JObj kvs) iu sc w h = Inr p" by blast
  with a show "is_nsfw p" by (auto intro: make_post_nsfw)
qed

theorem missing_flags_fail_closed_witness:
  "parse_post cfg0 urlparse (JObj [(''data'', JObj data_no_self)]) = Inr None
   \<and> parse_post cfg0 urlparse (JObj [(''data'', JObj data_no_over18)]) = Inr None
   \<and> parse_post cfg_nsfw urlparse (JObj [(''data'', JObj data_no_over18)])
       = Inr (Some \<lparr>post_id = ''x2'', title = ''No age flag'', author = ''unknown'',
                    post_subreddit = ''pics'', url = ''https://i.redd.it/x2.png'',
                    permalink = [], score = 3, created_utc = JInt 0, is_nsfw = True,
                    width = 0, height = 0\<rparr>)
   \<and> include_nsfw cfg_nsfw"
proof -
  let ?p = "\<lparr>post_id = ''x2'', title = ''No age flag'', author = ''unknown'',
             post_subreddit = ''pics'', url = ''https://i.redd.it/x2.png'',
             permalink = [], score = 3, created_utc = JInt 0, is_nsfw = True,
             width = 0, height = 0\<rparr>"
  have d1: "py_get (JObj [(''data'', JObj data_no_self)]) ''data'' (JObj []) = Inr (JObj data_no_self)"
    by simp
  have d2: "py_get (JObj [(''data'', JObj data_no_over18)]) ''data'' (JObj []) = Inr (JObj data_no_over18)"
    by simp
  have m1: "map_of data_no_self ''is_self'' = None"
    by (simp add: data_no_self_def)
  have m2: "map_of data_no_over18 ''over_18'' = None"
    by (simp add: data_no_over18_def)
  have off: "\<not> include_nsfw cfg0"
    by (simp add: cfg0_def)
  have made: "parse_post cfg_nsfw urlparse (JObj [(''data'', JObj data_no_over18)]) = Inr (Some ?p)"
    by code_simp
  from missing_flags_fail_closed [OF d1, of cfg0 urlparse] m1
  have "parse_post cfg0 urlparse (JObj [(''data'', JObj data_no_self)]) = Inr None"
    by simp
  moreover from missing_flags_fail_closed [OF d2, of cfg0 urlparse] m2 off
  have "parse_post cfg0 urlparse (JObj [(''data'', JObj data_no_over18)]) = Inr None"
    by simp
  moreover from missing_flags_fail_closed [OF d2, of cfg_nsfw urlparse ?p] m2 made
  have "include_nsfw cfg_nsfw"
    by simp
  ultimately show ?thesis using made by simp
qed

subsection \<open>The deduplication index\<close>

lemma load_existing_files_downloaded:
  "downloaded (load_existing_files names st) = downloaded st \<union> stem_id ` set names"
  by (induction names arbitrary: st) auto

lemma takeWhile_stops: "x \<in> set xs \<Longrightarrow> \<not> P x \<Longrightarrow> length (takeWhile P xs) < length xs"
  by (induction xs) auto

lemma takeWhile_take:
  "length (takeWhile P xs) < i \<Longrightarrow> takeWhile P (take i xs) = takeWhile P xs"
proof (induction xs arbitrary: i)
  case Nil
  then show ?case by simp
next
  case (Cons x xs)
  then show ?case by (cases i) (auto split: if_splits)
qed

lemma stem_cases:
  "stem name = name \<or>
   (\<exists>i. stem name = take i name \<and> i < length name \<and> name ! i = CHR ''.'')"
proof (cases "stem name = name")
  case True
  then show ?thesis by simp
next
  case False
  define k where "k = length (takeWhile (\<lambda>c. c \<noteq> CHR ''.'') (rev name))"
  define i where "i = length name - 1 - k"
  from False have dot: "CHR ''.'' \<in> set name" and st: "stem name = take i name"
    and i: "0 < i" "i < length name - 1"
    by (auto simp: stem_def Let_def i_def k_def split: if_splits)
  from dot have "k < length (rev name)"
    unfolding k_def by (intro takeWhile_stops [of "CHR ''.''"]) simp_all
  then have k: "k < length name" by simp
  have "\<not> (rev name ! k \<noteq> CHR ''.'')"
    unfolding k_def
    by (rule nth_length_takeWhile) (use k in \<open>simp add: k_def\<close>)
  then have "rev name ! k = CHR ''.''" by simp
  with k have "name ! (length name - Suc k) = CHR ''.''"
    by (simp add: rev_nth)
  moreover have "length name - Suc k = i" by (simp add: i_def)
  ultimately have "name ! i = CHR ''.''" by simp
  with st i show ?thesis by auto
qed

lemma stem_id_prefix:
  assumes us: "CHR ''_'' \<in> set name"
    and nodot: "CHR ''.'' \<notin> set (spec_name_prefix name)"
  shows "stem_id name = spec_name_prefix name"
proof -
  from stem_cases [of name] show ?thesis
  proof
    assume "stem name = name"
    then show ?thesis by (simp add: stem_id_def spec_name_prefix_def)
  next
    assume "\<exists>i. stem name = take i name \<and> i < length name \<and> name ! i = CHR ''.''"
    then obtain i where st: "stem name = take i name" and i: "i < length name"
      and dot: "name ! i = CHR ''.''" by blast
    let ?P = "\<lambda>c. c \<noteq> CHR ''_''"
    let ?n = "length (takeWhile ?P name)"
    from us have n: "?n < length name"
      by (intro takeWhile_stops [of "CHR ''_''"]) simp_all
    have "\<not> ?P (name ! ?n)"
      by (rule nth_length_takeWhile [OF n])
    then have at_n: "name ! ?n = CHR ''_''" by simp
    have "?n < i"
    proof (rule ccontr)
      assume "\<not> ?n < i"
      then have "i \<le> ?n" by simp
      then consider "i < ?n" | "i = ?n" by linarith
      then show False
      proof cases
        case 1
        then have "takeWhile ?P name ! i = name ! i"
          by (rule takeWhile_nth)
        with 1 dot have "CHR ''.'' \<in> set (takeWhile ?P name)"
          by (metis nth_mem)
        with nodot show False by (simp add: spec_name_prefix_def)
      next
        case 2
        with dot at_n show False by simp
      qed
    qed
    then have "takeWhile ?P (take i name) = takeWhile ?P name"
      by (rule takeWhile_take)
    with st show ?thesis by (simp add: stem_id_def spec_name_prefix_def)
  qed
qed

lemma filename_stem_id:
  assumes "filename up p = Inr name"
    and "CHR ''_'' \<notin> set (post_id p)" and "CHR ''.'' \<notin> set (post_id p)"
  shows "stem_id name = post_id p"
proof -
  from assms(1) obtain r where name: "name = post_id p @ CHR ''_'' # r"
    by (auto simp: filename_def bindE_def Let_def split: sum.splits)
  from assms(2) have pre: "spec_name_prefix name = post_id p"
    by (auto simp: name spec_name_prefix_def takeWhile_append2 takeWhile_tail)
  have "CHR ''_'' \<in> set name" by (simp add: name)
  from stem_id_prefix [OF this] pre assms(3) show ?thesis by simp
qed

text \<open>
  Claim C7, as stated, fails: the code takes the identifier from the stem of the file name
  (the name without its last suffix), not from the file name. For the file
  \<^verbatim>\<open>a.b_c\<close> the portion preceding the first separator is \<^verbatim>\<open>a.b\<close>, and the index
  records \<^verbatim>\<open>a\<close>.
\<close>

theorem seed_prefix_counterexample:
  "spec_name_prefix ''a.b_c'' = ''a.b'' \<and> downloaded (init cfg0 [''a.b_c'']) = {''a''}"
  by code_simp

text \<open>
  Claim C7, amended. With \<^verbatim>\<open>skip_existing\<close>, the index seeded from the file names
  \<open>names\<close> is exactly the set of their identifiers, where the identifier of a name is
  the portion of its stem preceding the first separator. That portion is the portion of
  the name itself preceding the first separator whenever the name has a separator with no
  dot before it; in particular the identifier of a name the scraper has written for a
  post is the identifier of the post, when that identifier has neither a separator nor a
  dot.
\<close>

theorem seed_records_stem_ids:
  "(skip_existing cfg \<longrightarrow> downloaded (init cfg names) = stem_id ` set names)
   \<and> (CHR ''_'' \<in> set name \<and> CHR ''.'' \<notin> set (spec_name_prefix name)
        \<longrightarrow> stem_id name = spec_name_prefix name)
   \<and> (filename up p = Inr name \<and> CHR ''_'' \<notin> set (post_id p) \<and> CHR ''.'' \<notin> set (post_id p)
        \<longrightarrow> stem_id name = post_id p)"
  by (auto simp: init_def load_existing_files_downloaded stem_id_prefix filename_stem_id)

theorem seed_records_stem_ids_witness:
  "downloaded (init cfg0 names0) = {''abc'', ''abd''}
   \<and> stem_id ''abd_Moon.jpg'' = spec_name_prefix ''abd_Moon.jpg''
   \<and> stem_id ''abc_Sun rise  set.png'' = post_id post0"
proof -
  have skip: "skip_existing cfg0"
    by (simp add: cfg0_def)
  have ids: "stem_id ` set names0 = {''abc'', ''abd''}"
    by code_simp
  have sep: "CHR ''_'' \<in> set ''abd_Moon.jpg'' \<and> CHR ''.'' \<notin> set (spec_name_prefix ''abd_Moon.jpg'')"
    by code_simp
  have name: "filename urlparse post0 = Inr ''abc_Sun rise  set.png''"
    by code_simp
  have plain: "CHR ''_'' \<notin> set (post_id post0) \<and> CHR ''.'' \<notin> set (post_id post0)"
    by code_simp
  from seed_records_stem_ids [of cfg0 names0 "''abd_Moon.jpg''" urlparse post0] skip ids sep
  have a: "downloaded (init cfg0 names0) = {''abc'', ''abd''}"
    and b: "stem_id ''abd_Moon.jpg'' = spec_name_prefix ''abd_Moon.jpg''"
    by simp_all
  from seed_records_stem_ids [of cfg0 names0 "''abc_Sun rise  set.png''" urlparse post0] name plain
  have "stem_id ''abc_Sun rise  set.png'' = post_id post0"
    by simp
  with a b show ?thesis by simp
qed

subsection \<open>The resolver\<close>













subsection \<open>Downloads\<close>

lemma download_image_keeps:
  "fs n \<noteq> None \<Longrightarrow> snd (download_image env up fs p) n = fs n"
  by (auto simp: download_image_def Let_def split: sum.splits dl_response.splits option.splits)

lemma download_image_frame:
  "filename up p = Inr name \<Longrightarrow> n \<noteq> name \<Longrightarrow> snd (download_image env up fs p) n = fs n"
  by (auto simp: download_image_def Let_def split: sum.splits dl_response.splits option.splits)

lemma download_image_raises:
  "filename up p = Inl e \<Longrightarrow> download_image env up fs p = (Inl e, fs)"
  by (simp add: download_image_def)

lemma download_image_existing:
  "filename up p = Inr name \<Longrightarrow> fs name \<noteq> None \<Longrightarrow> download_image env up fs p = (Inr True, fs)"
  by (simp add: download_image_def)

lemma download_all_fold:
  "mset sched = mset ps \<Longrightarrow> download_all env up sched ps sf = fold (complete env up) sched sf"
  by (auto simp: download_all_def)

lemma fold_complete_keeps:
  "fs n \<noteq> None \<Longrightarrow> snd (fold (complete env up) sched (st, fs)) n = fs n"
proof (induction sched arbitrary: st fs)
  case Nil
  then show ?case by simp
next
  case (Cons p sched)
  obtain r fs1 where d: "download_image env up fs p = (r, fs1)"
    by (cases "download_image env up fs p")
  from download_image_keeps [of fs n env up p] Cons.prems d have "fs1 n = fs n" by simp
  with Cons.prems Cons.IH [of fs1 "account r p st"] d show ?case
    by (simp add: complete_def)
qed

lemma fold_complete_classifies:
  "\<exists>ok. subseq ok sched
     \<and> stat_downloaded (fst (fold (complete env up) sched (st, fs)))
         = stat_downloaded st + int (length ok)
     \<and> stat_failed (fst (fold (complete env up) sched (st, fs)))
         = stat_failed st + int (length sched - length ok)
     \<and> downloaded (fst (fold (complete env up) sched (st, fs)))
         = downloaded st \<union> post_id ` set ok
     \<and> stat_skipped (fst (fold (complete env up) sched (st, fs))) = stat_skipped st
     \<and> (\<forall>p\<in>set sched. \<forall>name. filename up p = Inr name \<and> fs name \<noteq> None \<longrightarrow> p \<in> set ok)"
proof (induction sched arbitrary: st fs)
  case Nil
  then show ?case by simp
next
  case (Cons p sched)
  obtain r fs1 where d: "download_image env up fs p = (r, fs1)"
    by (cases "download_image env up fs p")
  let ?st1 = "account r p st"
  let ?res = "fst (fold (complete env up) sched (?st1, fs1))"
  have step: "fold (complete env up) (p # sched) (st, fs) = fold (complete env up) sched (?st1, fs1)"
    using d by (simp add: complete_def)
  from Cons.IH [of ?st1 fs1] obtain ok where ok: "subseq ok sched"
    "stat_downloaded ?res = stat_downloaded ?st1 + int (length ok)"
    "stat_failed ?res = stat_failed ?st1 + int (length sched - length ok)"
    "downloaded ?res = downloaded ?st1 \<union> post_id ` set ok"
    "stat_skipped ?res = stat_skipped ?st1"
    "\<forall>q\<in>set sched. \<forall>name. filename up q = Inr name \<and> fs1 name \<noteq> None \<longrightarrow> q \<in> set ok"
    by blast
  have len: "length ok \<le> length sched"
    using ok(1) by (rule list_emb_length)
  have kept: "fs1 name \<noteq> None" if "fs name \<noteq> None" for name
    using download_image_keeps [of fs name env up p] d that by simp
  show ?case
  proof (cases "r = Inr True")
    case True
    have "subseq (p # ok) (p # sched)" using ok(1) by simp
    moreover have "stat_downloaded ?res = stat_downloaded st + int (length (p # ok))"
      using ok(2) True by (simp add: account_def)
    moreover have "stat_failed ?res = stat_failed st + int (length (p # sched) - length (p # ok))"
      using ok(3) True by (simp add: account_def)
    moreover have "downloaded ?res = downloaded st \<union> post_id ` set (p # ok)"
      using ok(4) True by (auto simp: account_def)
    moreover have "stat_skipped ?res = stat_skipped st"
      using ok(5) True by (simp add: account_def)
    moreover have "\<forall>q\<in>set (p # sched). \<forall>name. filename up q = Inr name \<and> fs name \<noteq> None
        \<longrightarrow> q \<in> set (p # ok)"
      using ok(6) kept by auto
    ultimately show ?thesis unfolding step by blast
  next
    case False
    have nofile: "\<not> (filename up p = Inr name \<and> fs name \<noteq> None)" for name
    proof
      assume "filename up p = Inr name \<and> fs name \<noteq> None"
      then have "download_image env up fs p = (Inr True, fs)"
        by (simp add: download_image_existing)
      with d False show False by simp
    qed
    have "subseq ok (p # sched)" using ok(1) by (rule list_emb_Cons)
    moreover have "stat_downloaded ?res = stat_downloaded st + int (length ok)"
      using ok(2) False by (cases r) (auto simp: account_def)
    moreover have "stat_failed ?res = stat_failed st + int (length (p # sched) - length ok)"
      using ok(3) False len by (cases r) (auto simp: account_def Suc_diff_le)
    moreover have "downloaded ?res = downloaded st \<union> post_id ` set ok"
      using ok(4) False by (cases r) (auto simp: account_def)
    moreover have "stat_skipped ?res = stat_skipped st"
      using ok(5) False by (cases r) (auto simp: account_def)
    moreover have "\<forall>q\<in>set (p # sched). \<forall>name. filename up q = Inr name \<and> fs name \<noteq> None
        \<longrightarrow> q \<in> set ok"
      using ok(6) kept nofile by auto
    ultimately show ?thesis unfolding step by blast
  qed
qed
lemma fold_complete_frame:
  "\<forall>q\<in>set sched. filename up q \<noteq> Inr name \<Longrightarrow>
   snd (fold (complete env up) sched (st, fs)) name = fs name"
proof (induction sched arbitrary: st fs)
  case Nil
  then show ?case by simp
next
  case (Cons p sched)
  obtain r fs1 where d: "download_image env up fs p = (r, fs1)"
    by (cases "download_image env up fs p")
  have "fs1 name = fs name"
  proof (cases "filename up p")
    case (Inl e)
    with d show ?thesis by (simp add: download_image_raises)
  next
    case (Inr n)
    with Cons.prems have "name \<noteq> n" by auto
    from download_image_frame [OF Inr this, of env fs] d show ?thesis by simp
  qed
  with Cons.prems Cons.IH [of "account r p st" fs1] d show ?case
    by (simp add: complete_def)
qed

lemma account_failure_commute:
  "account r q (account (Inr False) p st) = account (Inr False) p (account r q st)"
  by (cases r) (auto simp: account_def insert_commute)

lemma fold_complete_failure:
  "fold (complete env up) sched (account (Inr False) p st, fs)
     = (account (Inr False) p (fst (fold (complete env up) sched (st, fs))),
        snd (fold (complete env up) sched (st, fs)))"
proof (induction sched arbitrary: st fs)
  case Nil
  then show ?case by simp
next
  case (Cons q sched)
  obtain r fs1 where d: "download_image env up fs q = (r, fs1)"
    by (cases "download_image env up fs q")
  with Cons.IH [of "account r q st" fs1] show ?case
    by (simp add: complete_def account_failure_commute)
qed

lemma download_image_bad_type:
  assumes "filename up p = Inr name" and "fs name = None"
    and "http_get env (url p) = Served ct body"
    and "\<not> startswith (case ct of None \<Rightarrow> [] | Some c \<Rightarrow> c) ''image/''"
  shows "download_image env up fs p = (Inr False, fs)"
  using assms by (simp add: download_image_def)

lemma account_failure_fields:
  "stat_failed (account (Inr False) p s) = stat_failed s + 1"
  "stat_downloaded (account (Inr False) p s) = stat_downloaded s"
  "failed (account (Inr False) p s) = insert (post_id p) (failed s)"
  by (simp_all add: account_def)

lemma download_all_same:
  "download_all env up sched sched sf = fold (complete env up) sched sf"
  by (simp add: download_all_def)

text \<open>
  Claim C8. Let the candidate \<open>p\<close> have the target \<open>name\<close>, let no file of that name
  exist when its task runs (after the tasks \<open>before\<close>), and let its response carry a
  content type that does not begin with \<^verbatim>\<open>image/\<close>. Then the task fails and leaves the
  directory as it found it; the whole phase ends exactly as the phase without \<open>p\<close>
  does, with one more failure counted and the identifier of \<open>p\<close> among the failed ones,
  so the siblings are classified and written as if \<open>p\<close> were not there; and no file
  of that name exists at the end unless a sibling has the same target.
\<close>

theorem bad_content_type_isolated:
  assumes "filename up p = Inr name"
    and "snd (download_all env up before before (st, fs)) name = None"
    and "http_get env (url p) = Served ct body"
    and "\<not> startswith (case ct of None \<Rightarrow> [] | Some c \<Rightarrow> c) ''image/''"
  shows "download_image env up (snd (download_all env up before before (st, fs))) p
           = (Inr False, snd (download_all env up before before (st, fs)))
       \<and> download_all env up (before @ p # rest) (before @ p # rest) (st, fs)
           = (account (Inr False) p (fst (download_all env up (before @ rest) (before @ rest) (st, fs))),
              snd (download_all env up (before @ rest) (before @ rest) (st, fs)))
       \<and> ((\<forall>q\<in>set rest. filename up q \<noteq> Inr name)
            \<longrightarrow> snd (download_all env up (before @ p # rest) (before @ p # rest) (st, fs)) name = None)"
proof -
  obtain st1 fs1 where b: "fold (complete env up) before (st, fs) = (st1, fs1)"
    by (cases "fold (complete env up) before (st, fs)")
  from assms(2) b have none: "fs1 name = None" by (simp add: download_all_same)
  have d: "download_image env up fs1 p = (Inr False, fs1)"
    using download_image_bad_type [of up p name fs1 env ct body] assms(1,3,4) none by simp
  then have c: "complete env up p (st1, fs1) = (account (Inr False) p st1, fs1)"
    by (simp add: complete_def)
  have whole: "fold (complete env up) (before @ p # rest) (st, fs)
      = (account (Inr False) p (fst (fold (complete env up) rest (st1, fs1))),
         snd (fold (complete env up) rest (st1, fs1)))"
    using b c by (simp add: fold_complete_failure)
  have without: "fold (complete env up) (before @ rest) (st, fs)
      = fold (complete env up) rest (st1, fs1)"
    using b by simp
  have "snd (fold (complete env up) rest (st1, fs1)) name = None"
    if "\<forall>q\<in>set rest. filename up q \<noteq> Inr name"
    using fold_complete_frame [OF that, of env st1 fs1] none by simp
  with d b whole without show ?thesis
    by (simp add: download_all_same)
qed

text \<open>
  Claim C9, as stated, fails: the file is opened for writing before the body is read, so a
  transfer that breaks off while the body is read is a failure that leaves an empty file
  at the target path.
\<close>

theorem download_not_atomic_counterexample:
  "filename urlparse post0 = Inr ''abc_Sun rise  set.png''
   \<and> fst (download_image env_cut urlparse Map.empty post0) = Inr False
   \<and> snd (download_image env_cut urlparse Map.empty post0) ''abc_Sun rise  set.png'' = Some []"
  by code_simp

text \<open>
  Claim C9, amended. For a candidate whose target does not exist yet: when the request
  fails (\<^verbatim>\<open>urlopen\<close> raises, as it does on a connection error and on a status that is
  not 2xx) or the content type does not begin with \<^verbatim>\<open>image/\<close>, the download is a
  failure and no file is created; when the response is an image, the file can be opened
  and the body is read, the download succeeds and the target holds the full body; a
  download that succeeds has always put the full body there; and no other path of the
  directory is touched. Nothing is claimed for a transfer that breaks off while the body
  is read.
\<close>

theorem download_whole_or_nothing:
  assumes "filename up p = Inr name" and "fs name = None"
  shows "(http_get env (url p) = Unreachable \<longrightarrow> download_image env up fs p = (Inr False, fs))
       \<and> (http_get env (url p) = Served ct body
            \<and> \<not> startswith (case ct of None \<Rightarrow> [] | Some c \<Rightarrow> c) ''image/''
            \<longrightarrow> download_image env up fs p = (Inr False, fs))
       \<and> (http_get env (url p) = Served ct (Some b)
            \<and> startswith (case ct of None \<Rightarrow> [] | Some c \<Rightarrow> c) ''image/'' \<and> can_open env name
            \<longrightarrow> download_image env up fs p = (Inr True, fs(name \<mapsto> b)))
       \<and> (fst (download_image env up fs p) = Inr True
            \<longrightarrow> (\<exists>ct' b'. http_get env (url p) = Served ct' (Some b')
                   \<and> snd (download_image env up fs p) name = Some b'))
       \<and> (\<forall>n. n \<noteq> name \<longrightarrow> snd (download_image env up fs p) n = fs n)"
proof (intro conjI impI allI)
  assume "http_get env (url p) = Unreachable"
  with assms show "download_image env up fs p = (Inr False, fs)"
    by (simp add: download_image_def)
next
  assume "http_get env (url p) = Served ct body
            \<and> \<not> startswith (case ct of None \<Rightarrow> [] | Some c \<Rightarrow> c) ''image/''"
  with assms show "download_image env up fs p = (Inr False, fs)"
    by (simp add: download_image_def)
next
  assume "http_get env (url p) = Served ct (Some b)
            \<and> startswith (case ct of None \<Rightarrow> [] | Some c \<Rightarrow> c) ''image/'' \<and> can_open env name"
  with assms show "download_image env up fs p = (Inr True, fs(name \<mapsto> b))"
    by (simp add: download_image_def)
next
  assume "fst (download_image env up fs p) = Inr True"
  with assms show "\<exists>ct' b'. http_get env (url p) = Served ct' (Some b')
                   \<and> snd (download_image env up fs p) name = Some b'"
    by (auto simp: download_image_def Let_def split: dl_response.splits option.splits if_splits)
next
  fix n assume "n \<noteq> name"
  with assms(1) show "snd (download_image env up fs p) n = fs n"
    by (simp add: download_image_frame)
qed

text \<open>
  Claim C10. After the download phase over the posts \<open>ps\<close>, finished in any order
  \<open>sched\<close>, the increments of the downloaded and the failed counter add up to the
  number of posts, and the skip counter is unchanged. The posts counted as downloaded are
  a sub-list \<open>ok\<close> of the schedule: the downloaded counter grows by its length, the
  identifiers of its posts are exactly what is added to the set of known identifiers, and
  it contains every post whose target file existed before the phase.
\<close>

theorem download_classifies_each_once:
  assumes "mset sched = mset ps"
    and "download_all env up sched ps (st, fs) = (st', fs')"
  shows "(stat_downloaded st' - stat_downloaded st) + (stat_failed st' - stat_failed st)
           = int (length ps)
       \<and> stat_skipped st' = stat_skipped st
       \<and> (\<exists>ok. subseq ok sched
             \<and> stat_downloaded st' = stat_downloaded st + int (length ok)
             \<and> downloaded st' = downloaded st \<union> post_id ` set ok
             \<and> (\<forall>p\<in>set sched. \<forall>name. filename up p = Inr name \<and> fs name \<noteq> None
                   \<longrightarrow> p \<in> set ok))"
proof -
  from assms have f: "fold (complete env up) sched (st, fs) = (st', fs')"
    by (simp add: download_all_fold)
  from assms(1) have len: "length sched = length ps"
    by (rule mset_eq_length)
  from fold_complete_classifies [of sched env up st fs] f
  obtain ok where ok: "subseq ok sched"
    "stat_downloaded st' = stat_downloaded st + int (length ok)"
    "stat_failed st' = stat_failed st + int (length sched - length ok)"
    "downloaded st' = downloaded st \<union> post_id ` set ok"
    "stat_skipped st' = stat_skipped st"
    "\<forall>p\<in>set sched. \<forall>name. filename up p = Inr name \<and> fs name \<noteq> None \<longrightarrow> p \<in> set ok"
    by auto
  have "length ok \<le> length sched"
    using ok(1) by (rule list_emb_length)
  with ok(2,3) len
  have "(stat_downloaded st' - stat_downloaded st) + (stat_failed st' - stat_failed st)
           = int (length ps)"
    by simp
  with ok show ?thesis by blast
qed

theorem bad_content_type_isolated_witness:
  "fst (download_image env_html urlparse
          (snd (download_all env_html urlparse [cand ''a'', cand ''b''] [cand ''a'', cand ''b'']
                  (st0, Map.empty)))
          (cand ''c'')) = Inr False
   \<and> stat_failed (fst (download_all env_html urlparse five five (st0, Map.empty))) = 1
   \<and> stat_downloaded (fst (download_all env_html urlparse five five (st0, Map.empty))) = 4
   \<and> failed (fst (download_all env_html urlparse five five (st0, Map.empty))) = {''c''}
   \<and> snd (download_all env_html urlparse five five (st0, Map.empty)) ''c_pic c.png'' = None"
proof -
  let ?ab = "[cand ''a'', cand ''b'']" and ?de = "[cand ''d'', cand ''e'']"
  have name: "filename urlparse (cand ''c'') = Inr ''c_pic c.png''"
    by code_simp
  have absent: "snd (download_all env_html urlparse ?ab ?ab (st0, Map.empty)) ''c_pic c.png'' = None"
    by code_simp
  have served: "http_get env_html (url (cand ''c'')) = Served (Some ''text/html'') (Some ''<html></html>'')"
    by code_simp
  have bad: "\<not> startswith (case Some ''text/html'' of None \<Rightarrow> [] | Some c \<Rightarrow> c) ''image/''"
    by code_simp
  have others: "\<forall>q\<in>set ?de. filename urlparse q \<noteq> Inr ''c_pic c.png''"
    by code_simp
  have split: "five = ?ab @ cand ''c'' # ?de" "four = ?ab @ ?de"
    by (simp_all add: five_def four_def)
  have rest: "stat_failed (fst (download_all env_html urlparse four four (st0, Map.empty))) = 0
      \<and> stat_downloaded (fst (download_all env_html urlparse four four (st0, Map.empty))) = 4
      \<and> failed (fst (download_all env_html urlparse four four (st0, Map.empty))) = {}"
    by code_simp
  have id: "post_id (cand ''c'') = ''c''"
    by (simp add: cand_def)
  let ?f5 = "download_all env_html urlparse five five (st0, Map.empty)"
  let ?x4 = "download_all env_html urlparse four four (st0, Map.empty)"
  note t = bad_content_type_isolated [OF name absent served bad, of ?de, folded split]
  from t have a: "fst (download_image env_html urlparse
          (snd (download_all env_html urlparse ?ab ?ab (st0, Map.empty))) (cand ''c'')) = Inr False"
    by (simp only: fst_conv)
  from t have b: "?f5 = (account (Inr False) (cand ''c'') (fst ?x4), snd ?x4)"
    by (elim conjE)
  from t others have c: "snd ?f5 ''c_pic c.png'' = None"
    by (elim conjE) (rule mp)
  have "fst ?f5 = account (Inr False) (cand ''c'') (fst ?x4)"
    by (subst b) (rule fst_conv)
  then have "stat_failed (fst ?f5) = stat_failed (fst ?x4) + 1
      \<and> stat_downloaded (fst ?f5) = stat_downloaded (fst ?x4)
      \<and> failed (fst ?f5) = insert (post_id (cand ''c'')) (failed (fst ?x4))"
    by (simp only: account_failure_fields)
  with rest id have "stat_failed (fst ?f5) = 1 \<and> stat_downloaded (fst ?f5) = 4
      \<and> failed (fst ?f5) = {''c''}"
    by (simp only:) simp
  with a c show ?thesis
    by (simp only:)
qed

theorem download_whole_or_nothing_witness:
  "download_image env_ok urlparse Map.empty post0
     = (Inr True, [''abc_Sun rise  set.png'' \<mapsto> ''PNG''])
   \<and> download_image env_html urlparse Map.empty (cand ''c'') = (Inr False, Map.empty)"
proof -
  have n0: "filename urlparse post0 = Inr ''abc_Sun rise  set.png''"
    by code_simp
  have g0: "http_get env_ok (url post0) = Served (Some ''image/png'') (Some ''PNG'')
      \<and> startswith (case Some ''image/png'' of None \<Rightarrow> [] | Some c \<Rightarrow> c) ''image/''
      \<and> can_open env_ok ''abc_Sun rise  set.png''"
    by code_simp
  have nc: "filename urlparse (cand ''c'') = Inr ''c_pic c.png''"
    by code_simp
  have gc: "http_get env_html (url (cand ''c'')) = Served (Some ''text/html'') (Some ''<html></html>'')
      \<and> \<not> startswith (case Some ''text/html'' of None \<Rightarrow> [] | Some c \<Rightarrow> c) ''image/''"
    by code_simp
  have e: "(Map.empty :: files) n = None" for n
    by simp
  from download_whole_or_nothing [OF n0 e, of env_ok "Some ''image/png''" _ "''PNG''"] g0
  have "download_image env_ok urlparse Map.empty post0
     = (Inr True, [''abc_Sun rise  set.png'' \<mapsto> ''PNG''])"
    by simp
  moreover
  from download_whole_or_nothing [OF nc e, of env_html "Some ''text/html''" "Some ''<html></html>''"] gc
  have "download_image env_html urlparse Map.empty (cand ''c'') = (Inr False, Map.empty)"
    by simp
  ultimately show ?thesis by simp
qed

theorem download_classifies_each_once_witness:
  "stat_downloaded (fst (download_all env_html urlparse (rev five) five (st0, fs_a)))
     + stat_failed (fst (download_all env_html urlparse (rev five) five (st0, fs_a))) = 5
   \<and> stat_skipped (fst (download_all env_html urlparse (rev five) five (st0, fs_a))) = 0
   \<and> ''a'' \<in> downloaded (fst (download_all env_html urlparse (rev five) five (st0, fs_a)))"
proof -
  let ?r = "download_all env_html urlparse (rev five) five (st0, fs_a)"
  have m: "mset (rev five) = mset five"
    by simp
  have r: "?r = (fst ?r, snd ?r)"
    by simp
  have na: "filename urlparse (cand ''a'') = Inr ''a_pic a.png'' \<and> fs_a ''a_pic a.png'' \<noteq> None"
    by code_simp
  have a: "cand ''a'' \<in> set (rev five)"
    by (simp add: five_def)
  have z: "stat_downloaded st0 = 0 \<and> stat_failed st0 = 0 \<and> stat_skipped st0 = 0 \<and> downloaded st0 = {}"
    by (simp add: st0_def)
  have l: "length five = 5"
    by (simp add: five_def)
  have i: "post_id (cand ''a'') = ''a''"
    by (simp add: cand_def)
  from download_classifies_each_once [OF m r] obtain ok where
    sum: "(stat_downloaded (fst ?r) - stat_downloaded st0) + (stat_failed (fst ?r) - stat_failed st0)
            = int (length five)"
    and sk: "stat_skipped (fst ?r) = stat_skipped st0"
    and dl: "downloaded (fst ?r) = downloaded st0 \<union> post_id ` set ok"
    and ex: "\<forall>p\<in>set (rev five). \<forall>name. filename urlparse p = Inr name \<and> fs_a name \<noteq> None
               \<longrightarrow> p \<in> set ok"
    by blast
  from ex a na have "cand ''a'' \<in> set ok" by blast
  then have "post_id (cand ''a'') \<in> post_id ` set ok" by (rule imageI)
  with dl i have "''a'' \<in> downloaded (fst ?r)" by simp
  with sum sk z l show ?thesis by simp
qed

subsection \<open>Requests of the listing fetch\<close>






lemma make_request_events:
  "make_request q script = Some (d, script', ev) \<Longrightarrow> Request q' \<in> set ev \<Longrightarrow> q' = q"
proof (induction script arbitrary: d script' ev)
  case Nil
  then show ?case by simp
next
  case (Cons r rs)
  then show ?case
    by (cases r) (auto split: if_splits option.splits)
qed

lemma scan_children_trace:
  "scan_children cfg up dl cs st = Inr st' \<Longrightarrow> trace st' = trace st \<and> after st' = after st"
proof (induction cs arbitrary: st)
  case Nil
  then show ?case by simp
next
  case (Cons c cs)
  then show ?case
    by (auto simp: bindE_Inr_iff split: if_splits option.splits)
qed

lemma fetch_loop_requests:
  assumes "fetch_loop cfg up dl st script = Some (Inr r)"
    and "\<forall>q. Request q \<in> set (trace st) \<longrightarrow> (\<exists>a. q = build_url cfg a)"
  shows "\<forall>q. Request q \<in> set (trace r) \<longrightarrow> (\<exists>a. q = build_url cfg a)"
  using assms
proof (induction cfg up dl st script rule: fetch_loop.induct)
  case (1 cfg up dl st script)
  show ?case
  proof (cases "fetched st < limit cfg")
    case False
    with "1.prems" show ?thesis
      by (subst (asm) fetch_loop.simps) (simp add: Let_def)
  next
    case True
    with "1.prems"(1) obtain data script' ev where
      mr: "make_request (build_url cfg (after st)) script = Some (data, script', ev)"
      by (subst (asm) fetch_loop.simps) (auto split: option.splits)
    let ?st1 = "st\<lparr>trace := trace st @ ev\<rparr>"
    have inv1: "\<forall>q. Request q \<in> set (trace ?st1) \<longrightarrow> (\<exists>a. q = build_url cfg a)"
      using "1.prems"(2) make_request_events [OF mr] by auto
    show ?thesis
    proof (cases "truthy data")
      case False
      with True mr "1.prems"(1) have "r = ?st1"
        by (subst (asm) fetch_loop.simps) (simp add: Let_def)
      with inv1 show ?thesis by simp
    next
      case td: True
      with True mr "1.prems"(1) obtain children where
        ch: "get_children data = Inr children"
        by (subst (asm) fetch_loop.simps) (auto simp: Let_def split: sum.splits)
      show ?thesis
      proof (cases "truthy children")
        case False
        with True mr td ch "1.prems"(1) have "r = ?st1"
          by (subst (asm) fetch_loop.simps) (simp add: Let_def)
        with inv1 show ?thesis by simp
      next
        case tc: True
        with True mr td ch "1.prems"(1) obtain st2 a where
          sc: "bindE (py_iter children) (\<lambda>cs. scan_children cfg up dl cs ?st1) = Inr st2"
          and ga: "get_after data = Inr a"
          by (subst (asm) fetch_loop.simps) (auto simp: Let_def split: sum.splits)
        from sc obtain cs where "scan_children cfg up dl cs ?st1 = Inr st2"
          by (auto simp: bindE_Inr_iff)
        then have tr2: "trace st2 = trace ?st1"
          by (simp add: scan_children_trace)
        show ?thesis
        proof (cases "truthy a")
          case False
          with True mr td ch tc sc ga "1.prems"(1) have "r = st2\<lparr>after := a\<rparr>"
            by (subst (asm) fetch_loop.simps) (simp add: Let_def)
          with inv1 tr2 show ?thesis by simp
        next
          case ta: True
          let ?st3 = "st2\<lparr>after := a, trace := trace st2 @ [Delay]\<rparr>"
          from True mr td ch tc sc ga ta "1.prems"(1)
          have rec: "fetch_loop cfg up dl ?st3 script' = Some (Inr r)"
            by (subst (asm) fetch_loop.simps) (simp add: Let_def)
          have inv3: "\<forall>q. Request q \<in> set (trace ?st3) \<longrightarrow> (\<exists>a. q = build_url cfg a)"
            using inv1 tr2 by simp
          have nn: "\<not> \<not> truthy data" "\<not> \<not> truthy children" "\<not> \<not> truthy a"
            using td tc ta by simp_all
          from "1.IH" [OF True mr refl refl refl nn(1) ch nn(2) sc ga nn(3) rec inv3]
          show ?thesis .
        qed
      qed
    qed
  qed
qed

text \<open>
  Claim C2, as stated, fails: the page-size parameter is computed from the configured
  target alone. With target 5 and three posts kept from the first page, the second request
  still asks for 5 entries, where the remaining target is 2.
\<close>

theorem page_limit_counterexample:
  "fetch_posts cfg0 urlparse st0 (map (\<lambda>pg. Json (listing (fst pg) (snd pg))) [page1, page2, page3])
     = Some (Inr (map cand [''a'', ''b'', ''c'', ''d'', ''e''], st0\<lparr>stat_found := 5\<rparr>,
                  [Request q0, Delay, Request q1, Delay]))
   \<and> map_of (params q1) ''limit'' = Some (JInt 5)
   \<and> spec_page_limit 5 3 = 2"
  by code_simp

text \<open>
  Claim C2, amended. Every request issued during a listing fetch is built by
  \<^verbatim>\<open>_build_url\<close> from the configuration and a cursor, and its page-size parameter is
  the minimum of 100 and the configured target, the same for every page, whatever has
  been accumulated.
\<close>

theorem page_limit_is_total_target:
  assumes "fetch_posts cfg up rs script = Some (Inr (ps, rs', tr))"
    and "Request q \<in> set tr"
  shows "map_of (params q) ''limit'' = Some (JInt (min 100 (limit cfg)))
       \<and> (\<exists>a. q = build_url cfg a)"
proof -
  let ?st = "\<lparr>posts = [], after = JNull, fetched = 0, skipped = stat_skipped rs, trace = []\<rparr>"
  from assms(1) obtain r where
    r: "fetch_loop cfg up (downloaded rs) ?st script = Some (Inr r)" and tr: "tr = trace r"
    by (auto simp: fetch_posts_def split: option.splits sum.splits)
  have "\<forall>q. Request q \<in> set (trace ?st) \<longrightarrow> (\<exists>a. q = build_url cfg a)"
    by simp
  from fetch_loop_requests [OF r this] assms(2) tr
  obtain a where "q = build_url cfg a" by blast
  then show ?thesis
    by (auto simp: build_url_def)
qed

theorem page_limit_is_total_target_witness:
  "Request q1 \<in> set [Request q0, Delay, Request q1, Delay]
   \<and> map_of (params q1) ''limit'' = Some (JInt (min 100 (limit cfg0)))"
proof -
  have run: "fetch_posts cfg0 urlparse st0 (map (\<lambda>pg. Json (listing (fst pg) (snd pg))) [page1, page2, page3])
     = Some (Inr (map cand [''a'', ''b'', ''c'', ''d'', ''e''], st0\<lparr>stat_found := 5\<rparr>,
                  [Request q0, Delay, Request q1, Delay]))"
    by code_simp
  have m: "Request q1 \<in> set [Request q0, Delay, Request q1, Delay]"
    by simp
  from page_limit_is_total_target [OF run m] m
  show ?thesis by simp
qed

end
